theory Spec2Isabelle
  imports Complex_Main "HOL-Library.Multiset"
begin

section \<open>Image-to-PDF tool: data model (imgtopdf.tsx)\<close>

text \<open>
  The component \<open>ImgToPdf\<close> keeps its data in React state hooks. Each handler is
  modelled as a function from the state before the event to the state after it, paired
  with the list of calls it makes to browser and library capabilities, in program order.
  A browser \<open>File\<close> is represented by the two attributes the component reads.
\<close>

record File =
  file_name :: string
  file_type :: string

text \<open>Interface \<open>ImageData\<close>; the fields \<open>file\<close> and \<open>id\<close> are called \<open>img_file\<close> and \<open>ident\<close> here.\<close>

record ImageData =
  img_file :: File
  url :: string
  ident :: string

datatype orientation = portrait | landscape

text \<open>JavaScript numbers are idealised as real numbers.\<close>

record PageSettings =
  orientation :: orientation
  margin :: real
  quality :: real

datatype severity = success | error | info

record Status =
  message :: string
  severity :: severity

record ImgToPdf =
  selectedImages :: "ImageData list"
  status :: "Status option"
  loading :: bool
  draggedImage :: "string option"
  pageSettings :: PageSettings
  showSettings :: bool
  zoomLevel :: real

definition initial :: ImgToPdf where
  "initial = \<lparr>selectedImages = [], status = None, loading = False, draggedImage = None,
     pageSettings = \<lparr>orientation = portrait, margin = 10, quality = 100\<rparr>,
     showSettings = False, zoomLevel = 1\<rparr>"

subsection \<open>The document built by the PDF library\<close>

datatype imgformat = PNG | JPEG

text \<open>
  One call of \<open>addImage(imgElement, format, x, y, width, height, '', 'FAST')\<close>; the image
  element is identified by the object URL it was loaded from.
\<close>

record placed =
  src :: string
  fmt :: imgformat
  pos_x :: real
  pos_y :: real
  width :: real
  height :: real
  img_alias :: string
  compression :: string

text \<open>
  The PDF library is an external collaborator. Its document is modelled as a recorder of
  the calls made on it: the constructor options and, for every page, the images placed
  on that page. A new document starts with one empty page, \<open>addPage\<close> appends an empty
  page and \<open>addImage\<close> draws on the last page.
\<close>

record pdfdoc =
  doc_orientation :: orientation
  doc_unit :: string
  doc_format :: string
  doc_pages :: "placed list list"

definition newPDF :: "orientation \<Rightarrow> pdfdoc" where
  "newPDF ori = \<lparr>doc_orientation = ori, doc_unit = ''mm'', doc_format = ''a4'', doc_pages = [[]]\<rparr>"

definition addPage :: "pdfdoc \<Rightarrow> pdfdoc" where
  "addPage pdf = pdf\<lparr>doc_pages := doc_pages pdf @ [[]]\<rparr>"

definition addImage :: "placed \<Rightarrow> pdfdoc \<Rightarrow> pdfdoc" where
  "addImage p pdf =
     pdf\<lparr>doc_pages := butlast (doc_pages pdf)
            @ [(if doc_pages pdf = [] then [] else last (doc_pages pdf)) @ [p]]\<rparr>"

subsection \<open>Calls to the outside\<close>

datatype effect =
    CreateObjectURL File string
  | RevokeObjectURL string
  | Save pdfdoc string
  | ConsoleError

text \<open>The preview handles released by a list of calls.\<close>

fun released :: "effect list \<Rightarrow> string list" where
  "released [] = []"
| "released (RevokeObjectURL u # es) = u # released es"
| "released (e # es) = released es"

section \<open>Intake: \<open>generateId\<close> and \<open>handleFiles\<close>\<close>

text \<open>
  What the browser answers during one run of \<open>handleFiles\<close>: the object URL returned by
  the \<open>k\<close>-th call of \<open>URL.createObjectURL\<close>, and the base-36 rendering
  \<open>Math.random().toString(36)\<close> of the \<open>k\<close>-th random number.
\<close>

record intake_env =
  createObjectURL :: "nat \<Rightarrow> string"
  random36 :: "nat \<Rightarrow> string"

text \<open>\<open>s.substr(start, len)\<close> for non-negative arguments.\<close>

definition substr :: "nat \<Rightarrow> nat \<Rightarrow> string \<Rightarrow> string" where
  "substr start len s = take len (drop start s)"

definition generateId :: "intake_env \<Rightarrow> nat \<Rightarrow> string" where
  "generateId env k = substr 2 9 (random36 env k)"

definition accepted :: "string list" where
  "accepted = [''image/jpeg'', ''image/png'', ''image/webp'', ''image/gif'']"

text \<open>Decimal rendering of a number inside a template string.\<close>

fun string_of_nat :: "nat \<Rightarrow> string" where
  "string_of_nat n =
     (if n < 10 then [char_of (48 + n)]
      else string_of_nat (n div 10) @ [char_of (48 + n mod 10)])"

declare string_of_nat.simps [simp del]

definition validImages :: "File list \<Rightarrow> File list" where
  "validImages files = filter (\<lambda>f. file_type f \<in> set accepted) files"

definition imageData :: "intake_env \<Rightarrow> File list \<Rightarrow> ImageData list" where
  "imageData env valid =
     map (\<lambda>(k, f). \<lparr>img_file = f, url = createObjectURL env k, ident = generateId env k\<rparr>)
       (enumerate 0 valid)"

definition handleFiles :: "intake_env \<Rightarrow> File list option \<Rightarrow> ImgToPdf \<Rightarrow> ImgToPdf \<times> effect list" where
  "handleFiles env files s =
     (case files of
        None \<Rightarrow> (s, [])
      | Some fs \<Rightarrow>
          if length (validImages fs) = 0 then
            (s\<lparr>status := Some \<lparr>message = ''Please upload valid images (JPEG, PNG, WebP, GIF)'',
                                severity = error\<rparr>\<rparr>, [])
          else if length (validImages fs) + length (selectedImages s) > 50 then
            (s\<lparr>status := Some \<lparr>message = ''Maximum 50 images allowed'', severity = error\<rparr>\<rparr>, [])
          else
            (s\<lparr>selectedImages := selectedImages s @ imageData env (validImages fs),
               status := Some \<lparr>message = string_of_nat (length (imageData env (validImages fs)))
                                            @ '' image(s) added'',
                               severity = success\<rparr>\<rparr>,
             map (\<lambda>d. CreateObjectURL (img_file d) (url d)) (imageData env (validImages fs))))"

section \<open>Reordering by drag and drop: \<open>handleDropImage\<close>\<close>

text \<open>\<open>Array.prototype.findIndex\<close>; \<open>None\<close> stands for the result \<open>-1\<close>.\<close>

fun findIndex :: "('a \<Rightarrow> bool) \<Rightarrow> 'a list \<Rightarrow> nat option" where
  "findIndex P [] = None"
| "findIndex P (x # xs) =
     (if P x then Some 0 else (case findIndex P xs of None \<Rightarrow> None | Some i \<Rightarrow> Some (Suc i)))"

text \<open>\<open>xs.splice(i, 1)\<close> and \<open>xs.splice(j, 0, item)\<close>: the array that is left.\<close>

definition splice_out :: "nat \<Rightarrow> 'a list \<Rightarrow> 'a list" where
  "splice_out i xs = take i xs @ drop (Suc i) xs"

definition splice_in :: "nat \<Rightarrow> 'a \<Rightarrow> 'a list \<Rightarrow> 'a list" where
  "splice_in j item xs = take j xs @ [item] @ drop j xs"

definition relocate :: "string \<Rightarrow> string \<Rightarrow> ImageData list \<Rightarrow> ImageData list" where
  "relocate dragged targetImageId prev =
     (case findIndex (\<lambda>img. ident img = dragged) prev of
        None \<Rightarrow> prev
      | Some draggedIndex \<Rightarrow>
          (case findIndex (\<lambda>img. ident img = targetImageId) prev of
             None \<Rightarrow> prev
           | Some targetIndex \<Rightarrow>
               splice_in targetIndex (prev ! draggedIndex) (splice_out draggedIndex prev)))"

text \<open>
  The guard \<open>!draggedImage\<close> holds for \<open>null\<close> and for the empty string.
\<close>

definition handleDropImage :: "string \<Rightarrow> ImgToPdf \<Rightarrow> ImgToPdf \<times> effect list" where
  "handleDropImage targetImageId s =
     (case draggedImage s of
        None \<Rightarrow> (s, [])
      | Some dragged \<Rightarrow>
          if dragged = [] \<or> dragged = targetImageId then (s, [])
          else
            (s\<lparr>selectedImages := relocate dragged targetImageId (selectedImages s),
               draggedImage := None,
               status := Some \<lparr>message = ''Image order updated'', severity = success\<rparr>\<rparr>, []))"

definition handleDragStart :: "string \<Rightarrow> ImgToPdf \<Rightarrow> ImgToPdf \<times> effect list" where
  "handleDragStart imageId s = (s\<lparr>draggedImage := Some imageId\<rparr>, [])"

section \<open>Removal: \<open>removeImage\<close> and \<open>clearAll\<close>\<close>

definition removeImage :: "string \<Rightarrow> ImgToPdf \<Rightarrow> ImgToPdf \<times> effect list" where
  "removeImage i s =
     (let newImages = filter (\<lambda>img. ident img \<noteq> i) (selectedImages s) in
      if length newImages = 0 then
        (s\<lparr>selectedImages := newImages,
           status := Some \<lparr>message = ''All images removed'', severity = success\<rparr>\<rparr>, [])
      else (s\<lparr>selectedImages := newImages\<rparr>, []))"

definition clearAll :: "ImgToPdf \<Rightarrow> ImgToPdf \<times> effect list" where
  "clearAll s =
     (s\<lparr>selectedImages := [],
        status := Some \<lparr>message = ''All images cleared'', severity = success\<rparr>\<rparr>, [])"

section \<open>Assembly: \<open>generatePDF\<close>\<close>

datatype libcall = New_jsPDF | Call_addPage nat | Call_addImage nat | Call_save

text \<open>
  What the surroundings answer during one run of \<open>generatePDF\<close>:
  \<^item> \<open>pageSize\<close>: the values of \<open>getWidth()\<close> and \<open>getHeight()\<close> for a document of the
    given orientation (format a4, unit mm);
  \<^item> \<open>decode\<close>: for an object URL, the \<open>width\<close> and \<open>height\<close> of the image element when
    its \<open>onload\<close> handler runs, or \<open>None\<close> when the load event never fires (the source
    installs no \<open>onerror\<close> handler);
  \<^item> \<open>throws\<close>: whether a call into the PDF library raises an exception (the index is the
    loop counter \<open>i\<close>);
  \<^item> \<open>now\<close>: the value of \<open>new Date().getTime()\<close>.
\<close>

record assembly_env =
  pageSize :: "orientation \<Rightarrow> real \<times> real"
  decode :: "string \<Rightarrow> (nat \<times> nat) option"
  throws :: "libcall \<Rightarrow> bool"
  now :: nat

text \<open>
  The body of the \<open>onload\<close> handler up to the call of \<open>addImage\<close>. Division is the
  division of the reals; the source divides by the image's width and height, which are
  at least one pixel for an image that has loaded.
\<close>

definition place :: "assembly_env \<Rightarrow> PageSettings \<Rightarrow> pdfdoc \<Rightarrow> ImageData \<Rightarrow> nat \<times> nat \<Rightarrow> placed" where
  "place env ps pdf img dims =
     (let pdfWidth = fst (pageSize env (doc_orientation pdf));
          pdfHeight = snd (pageSize env (doc_orientation pdf));
          width0 = real (fst dims);
          height0 = real (snd dims);
          availableWidth = pdfWidth - (margin ps * 2);
          availableHeight = pdfHeight - (margin ps * 2);
          ratio = min (availableWidth / width0) (availableHeight / height0);
          width1 = width0 * ratio;
          height1 = height0 * ratio;
          x = (pdfWidth - width1) / 2;
          y = (pdfHeight - height1) / 2;
          format = (if file_type (img_file img) = ''image/png'' then PNG else JPEG)
      in \<lparr>src = url img, fmt = format, pos_x = x, pos_y = y, width = width1, height = height1,
          img_alias = [], compression = ''FAST''\<rparr>)"

text \<open>
  The \<open>for\<close> loop, from counter \<open>i\<close> on. An exception raised by \<open>addPage\<close> leaves the
  loop for the \<open>catch\<close> block. An exception raised inside the \<open>onload\<close> handler is not
  raised inside the awaited promise: \<open>resolve\<close> is never called and the \<open>await\<close> stays
  pending, as it does when the image never loads.
\<close>

datatype loop_result = Done pdfdoc | Threw | Pending

fun pages_loop :: "assembly_env \<Rightarrow> PageSettings \<Rightarrow> nat \<Rightarrow> ImageData list \<Rightarrow> pdfdoc \<Rightarrow> loop_result" where
  "pages_loop env ps i [] pdf = Done pdf"
| "pages_loop env ps i (img # rest) pdf =
     (if i > 0 \<and> throws env (Call_addPage i) then Threw
      else
        (let pdf1 = (if i > 0 then addPage pdf else pdf) in
         case decode env (url img) of
           None \<Rightarrow> Pending
         | Some dims \<Rightarrow>
             if throws env (Call_addImage i) then Pending
             else pages_loop env ps (Suc i) rest (addImage (place env ps pdf1 img dims) pdf1)))"

text \<open>
  The result of the asynchronous function: it returns, or it never does; either way with
  the component state it has written and the calls it has made so far.
\<close>

datatype outcome = Returned ImgToPdf "effect list" | Hung ImgToPdf "effect list"

fun final_state :: "outcome \<Rightarrow> ImgToPdf" where
  "final_state (Returned s es) = s"
| "final_state (Hung s es) = s"

fun effects :: "outcome \<Rightarrow> effect list" where
  "effects (Returned s es) = es"
| "effects (Hung s es) = es"

text \<open>The \<open>catch\<close> block followed by the \<open>finally\<close> block.\<close>

definition caught :: "ImgToPdf \<Rightarrow> outcome" where
  "caught s =
     Returned (s\<lparr>status := Some \<lparr>message = ''Error generating PDF'', severity = error\<rparr>,
                 loading := False\<rparr>) [ConsoleError]"

definition generatePDF :: "assembly_env \<Rightarrow> ImgToPdf \<Rightarrow> outcome" where
  "generatePDF env s =
     (if length (selectedImages s) = 0 then
        Returned (s\<lparr>status := Some \<lparr>message = ''No images selected'', severity = error\<rparr>\<rparr>) []
      else
        (let s1 = s\<lparr>loading := True,
                    status := Some \<lparr>message = ''Generating PDF...'', severity = info\<rparr>\<rparr> in
         if throws env New_jsPDF then caught s1
         else
           (case pages_loop env (pageSettings s) 0 (selectedImages s)
                   (newPDF (orientation (pageSettings s))) of
              Threw \<Rightarrow> caught s1
            | Pending \<Rightarrow> Hung s1 []
            | Done pdf \<Rightarrow>
                if throws env Call_save then caught s1
                else
                  Returned
                    (s1\<lparr>status := Some \<lparr>message = ''PDF generated with ''
                                        @ string_of_nat (length (selectedImages s)) @ '' image(s)'',
                                      severity = success\<rparr>,
                        loading := False\<rparr>)
                    [Save pdf (''images-'' @ string_of_nat (now env) @ ''.pdf'')])))"

section \<open>PDF split: validation of the page selection (pdfsplit.tsx)\<close>

text \<open>
  A JavaScript string is a sequence of UTF-16 code units; a regular expression without
  the \<open>u\<close> flag matches code units.
\<close>

type_synonym jsstring = "nat list"

definition js :: "string \<Rightarrow> jsstring" where
  "js s = map of_char s"

text \<open>The class \<open>\d\<close>, and the class \<open>\s\<close> (white space and line terminators).\<close>

definition isDigit :: "nat \<Rightarrow> bool" where
  "isDigit c = (48 \<le> c \<and> c \<le> 57)"

definition isSpace :: "nat \<Rightarrow> bool" where
  "isSpace c = (c \<in> set [9, 10, 11, 12, 13, 32, 160, 5760, 8232, 8233, 8239, 8287, 12288, 65279]
                \<or> (8192 \<le> c \<and> c \<le> 8202))"

datatype rx = Nothing | Eps | Cls "nat \<Rightarrow> bool" | Seq rx rx | Alt rx rx | Star rx

definition Chr :: "char \<Rightarrow> rx" where
  "Chr c = Cls (\<lambda>d. d = of_char c)"

definition Plus :: "rx \<Rightarrow> rx" where
  "Plus r = Seq r (Star r)"

definition Opt :: "rx \<Rightarrow> rx" where
  "Opt r = Alt r Eps"

fun nullable :: "rx \<Rightarrow> bool" where
  "nullable Nothing = False"
| "nullable Eps = True"
| "nullable (Cls P) = False"
| "nullable (Seq r s) = (nullable r \<and> nullable s)"
| "nullable (Alt r s) = (nullable r \<or> nullable s)"
| "nullable (Star r) = True"

fun deriv :: "nat \<Rightarrow> rx \<Rightarrow> rx" where
  "deriv c Nothing = Nothing"
| "deriv c Eps = Nothing"
| "deriv c (Cls P) = (if P c then Eps else Nothing)"
| "deriv c (Seq r s) =
     (if nullable r then Alt (Seq (deriv c r) s) (deriv c s) else Seq (deriv c r) s)"
| "deriv c (Alt r s) = Alt (deriv c r) (deriv c s)"
| "deriv c (Star r) = Seq (deriv c r) (Star r)"

text \<open>\<open>/^r$/.test(s)\<close>: the whole string matches \<open>r\<close>.\<close>

fun rx_test :: "rx \<Rightarrow> jsstring \<Rightarrow> bool" where
  "rx_test r [] = nullable r"
| "rx_test r (c # cs) = rx_test (deriv c r) cs"

text \<open>The pattern \<open>/^(\d+(-\d+)?)(,\s*\d+(-\d+)?)*$/\<close>.\<close>

definition pageRegex :: rx where
  "pageRegex =
     Seq (Seq (Plus (Cls isDigit)) (Opt (Seq (Chr CHR ''-'') (Plus (Cls isDigit)))))
         (Star (Seq (Chr CHR '','')
                 (Seq (Star (Cls isSpace))
                   (Seq (Plus (Cls isDigit)) (Opt (Seq (Chr CHR ''-'') (Plus (Cls isDigit))))))))"

text \<open>\<open>s.trim()\<close> and \<open>s.replace(/\s/g, '')\<close>.\<close>

definition trim :: "jsstring \<Rightarrow> jsstring" where
  "trim s = rev (dropWhile isSpace (rev (dropWhile isSpace s)))"

definition strip_spaces :: "jsstring \<Rightarrow> jsstring" where
  "strip_spaces s = filter (\<lambda>c. \<not> isSpace c) s"

record PdfSplit =
  selectedFile :: "File option"
  pages :: jsstring
  split_loading :: bool
  split_error :: "string option"
  split_success :: "string option"
  fileName :: string

text \<open>
  \<open>handleSplit\<close> up to the point where the request is sent: either it stops with an
  error message, or it goes on to post the file and the page selection.
\<close>

datatype split_step = Stopped PdfSplit | Posting PdfSplit File jsstring

definition handleSplit :: "PdfSplit \<Rightarrow> split_step" where
  "handleSplit s =
     (case selectedFile s of
        None \<Rightarrow> Stopped (s\<lparr>split_error := Some ''Please select a PDF file.''\<rparr>)
      | Some f \<Rightarrow>
          if trim (pages s) = [] then
            Stopped (s\<lparr>split_error :=
              Some ''Please enter pages to extract (comma-separated or ranges like 1-5).''\<rparr>)
          else if \<not> rx_test pageRegex (strip_spaces (pages s)) then
            Stopped (s\<lparr>split_error :=
              Some (''Invalid page format. Use commas for separate pages and hyphens ''
                    @ ''for ranges (e.g., 1,3-5,8).'')\<rparr>)
          else
            Posting (s\<lparr>split_loading := True, split_error := None, split_success := None\<rparr>)
              f (pages s))"

text \<open>The page selection passes the validation of \<open>handleSplit\<close>.\<close>

definition accepts :: "jsstring \<Rightarrow> bool" where
  "accepts p = (trim p \<noteq> [] \<and> rx_test pageRegex (strip_spaces p))"

section \<open>Concrete inputs\<close>

definition png1 :: File where
  "png1 = \<lparr>file_name = ''a.png'', file_type = ''image/png''\<rparr>"


definition gif1 :: File where
  "gif1 = \<lparr>file_name = ''c.gif'', file_type = ''image/gif''\<rparr>"

definition env_a :: intake_env where
  "env_a = \<lparr>createObjectURL = (\<lambda>k. ''blob:'' @ string_of_nat k),
            random36 = (\<lambda>k. ''0.'' @ string_of_nat k @ ''k3x9'')\<rparr>"

definition full50 :: ImgToPdf where
  "full50 = initial\<lparr>selectedImages :=
     replicate 50 \<lparr>img_file = png1, url = ''blob:x'', ident = ''x''\<rparr>\<rparr>"

text \<open>A4 pages of 210 by 297 mm, three images that load, no failing library call.\<close>

definition env_g :: assembly_env where
  "env_g = \<lparr>pageSize = (\<lambda>ori. case ori of portrait \<Rightarrow> (210, 297) | landscape \<Rightarrow> (297, 210)),
            decode = (\<lambda>u. if u = ''blob:0'' then Some (100, 200)
                           else if u = ''blob:1'' then Some (400, 100)
                           else if u = ''blob:2'' then Some (300, 300) else None),
            throws = (\<lambda>c. False), now = 1700000000000\<rparr>"

text \<open>The state with another value of the quality setting.\<close>

definition with_quality :: "real \<Rightarrow> ImgToPdf \<Rightarrow> ImgToPdf" where
  "with_quality q s = s\<lparr>pageSettings := (pageSettings s)\<lparr>quality := q\<rparr>\<rparr>"

definition three :: ImgToPdf where
  "three = initial\<lparr>selectedImages :=
     [\<lparr>img_file = png1, url = ''blob:0'', ident = ''a1''\<rparr>,
      \<lparr>img_file = \<lparr>file_name = ''b.jpg'', file_type = ''image/jpeg''\<rparr>, url = ''blob:1'', ident = ''b2''\<rparr>,
      \<lparr>img_file = gif1, url = ''blob:2'', ident = ''c3''\<rparr>]\<rparr>"

text \<open>
  Two different random numbers whose base-36 renderings agree on the nine characters
  that \<open>generateId\<close> keeps.
\<close>

definition env_same :: intake_env where
  "env_same = \<lparr>createObjectURL = (\<lambda>k. ''blob:'' @ string_of_nat k),
               random36 = (\<lambda>k. if k = 0 then ''0.k3x9q2m7pa1'' else ''0.k3x9q2m7pz8'')\<rparr>"

text \<open>The first of three entries is being dragged.\<close>

definition dragging :: ImgToPdf where
  "dragging = three\<lparr>draggedImage := Some ''a1''\<rparr>"

text \<open>As \<open>env_g\<close>, but only the first image ever loads.\<close>

definition env_stall :: assembly_env where
  "env_stall = \<lparr>pageSize = (\<lambda>ori. case ori of portrait \<Rightarrow> (210, 297) | landscape \<Rightarrow> (297, 210)),
                decode = (\<lambda>u. if u = ''blob:0'' then Some (100, 200) else None),
                throws = (\<lambda>c. False), now = 1700000000000\<rparr>"

section \<open>Regular languages and the page-selection grammar\<close>

text \<open>The set of strings a pattern stands for.\<close>

definition conc :: "jsstring set \<Rightarrow> jsstring set \<Rightarrow> jsstring set" where
  "conc A B = {u @ v | u v. u \<in> A \<and> v \<in> B}"

inductive_set star :: "jsstring set \<Rightarrow> jsstring set" for A :: "jsstring set" where
  star_nil: "[] \<in> star A"
| star_step: "u \<in> A \<Longrightarrow> v \<in> star A \<Longrightarrow> u @ v \<in> star A"

fun lang :: "rx \<Rightarrow> jsstring set" where
  "lang Nothing = {}"
| "lang Eps = {[]}"
| "lang (Cls P) = {[c] | c. P c}"
| "lang (Seq r s) = conc (lang r) (lang s)"
| "lang (Alt r s) = lang r \<union> lang s"
| "lang (Star r) = star (lang r)"

text \<open>
  The grammar of the specification, \<open>PAGESET := PAGE (',' PAGE)*\<close> and
  \<open>PAGE := NUMBER ('-' NUMBER)?\<close>, written after its words; a \<open>NUMBER\<close> is taken to be a
  non-empty run of decimal digits.
\<close>

definition NUMBER :: "jsstring \<Rightarrow> bool" where
  "NUMBER n = (n \<noteq> [] \<and> list_all isDigit n)"

definition PAGE :: "jsstring \<Rightarrow> bool" where
  "PAGE p = (NUMBER p \<or> (\<exists>a b. NUMBER a \<and> NUMBER b \<and> p = a @ of_char CHR ''-'' # b))"

definition PAGESET :: "jsstring \<Rightarrow> bool" where
  "PAGESET s = (\<exists>p ps. PAGE p \<and> list_all PAGE ps
                  \<and> s = p @ concat (map (\<lambda>q. of_char CHR '','' # q) ps))"

definition split0 :: PdfSplit where
  "split0 = \<lparr>selectedFile = Some \<lparr>file_name = ''doc.pdf'', file_type = ''application/pdf''\<rparr>,
     pages = js ''1, 3-5'', split_loading = False, split_error = None, split_success = None,
     fileName = ''doc.pdf''\<rparr>"

section \<open>Intake\<close>





text \<open>
  C6. \<open>handleFiles\<close> leaves the state untouched except for an error notification, and
  makes no call to the outside, exactly when no file of the batch has an accepted type or
  the accepted files would take the collection beyond 50 entries.
\<close>

theorem handleFiles_rejects_iff:
  "(\<exists>m. handleFiles env (Some B) s = (s\<lparr>status := Some \<lparr>message = m, severity = error\<rparr>\<rparr>, []))
   \<longleftrightarrow> (length (validImages B) = 0 \<or> length (selectedImages s) + length (validImages B) > 50)"
proof (cases "length (validImages B) = 0 \<or> length (selectedImages s) + length (validImages B) > 50")
  case True
  then show ?thesis
    by (auto simp add: handleFiles_def add.commute)
next
  case False
  then have "status (fst (handleFiles env (Some B) s)) =
      Some \<lparr>message = string_of_nat (length (imageData env (validImages B))) @ '' image(s) added'',
            severity = success\<rparr>"
    by (simp add: handleFiles_def)
  then have "\<not> (\<exists>m. handleFiles env (Some B) s = (s\<lparr>status := Some \<lparr>message = m, severity = error\<rparr>\<rparr>, []))"
    by auto
  with False show ?thesis by blast
qed

theorem handleFiles_rejects_iff_witness:
  "handleFiles env_a (Some [png1]) full50 =
     (full50\<lparr>status := Some \<lparr>message = ''Maximum 50 images allowed'', severity = error\<rparr>\<rparr>, [])
   \<and> 50 < length (selectedImages full50) + length (validImages [png1])"
proof -
  have v: "validImages [png1] = [png1]"
    by (simp add: validImages_def accepted_def png1_def)
  have c: "length (validImages [png1]) = 0 \<or> 50 < length (selectedImages full50) + length (validImages [png1])"
    by (simp add: v full50_def)
  from c handleFiles_rejects_iff [of env_a "[png1]" full50]
  obtain m where "handleFiles env_a (Some [png1]) full50 =
      (full50\<lparr>status := Some \<lparr>message = m, severity = error\<rparr>\<rparr>, [])"
    by blast
  moreover have "status (fst (handleFiles env_a (Some [png1]) full50)) =
      Some \<lparr>message = ''Maximum 50 images allowed'', severity = error\<rparr>"
    by (simp add: handleFiles_def v full50_def)
  ultimately show ?thesis using c by (simp add: v)
qed

section \<open>Assembly\<close>

text \<open>
  C7. On an empty collection \<open>generatePDF\<close> returns at once with the error notification
  "No images selected": nothing else of the state changes, no document is created and
  nothing is saved.
\<close>

theorem generatePDF_empty:
  assumes "selectedImages s = []"
  shows "generatePDF env s =
           Returned (s\<lparr>status := Some \<lparr>message = ''No images selected'', severity = error\<rparr>\<rparr>) []"
  using assms by (simp add: generatePDF_def)

theorem generatePDF_empty_witness:
  "generatePDF env_g initial =
     Returned (initial\<lparr>status := Some \<lparr>message = ''No images selected'', severity = error\<rparr>\<rparr>) []
   \<and> effects (generatePDF env_g initial) = []"
proof -
  have h: "selectedImages initial = []" by (simp add: initial_def)
  show ?thesis using generatePDF_empty [OF h, of env_g] by simp
qed

lemma addImage_addPage: "doc_pages (addImage p (addPage pdf)) = doc_pages pdf @ [[p]]"
  by (simp add: addImage_def addPage_def)

lemma addImage_newPDF: "doc_pages (addImage p (newPDF ori)) = [[p]]"
  by (simp add: addImage_def newPDF_def)

lemma place_cong:
  "doc_orientation pdf = ori \<Longrightarrow> place env ps pdf img d = place env ps (newPDF ori) img d"
  by (simp add: place_def newPDF_def)

lemma orientation_addImage: "doc_orientation (addImage p pdf) = doc_orientation pdf"
  by (simp add: addImage_def)

lemma orientation_addPage: "doc_orientation (addPage pdf) = doc_orientation pdf"
  by (simp add: addPage_def)

lemma pages_loop_later:
  assumes "0 < i" and "\<forall>c. \<not> throws env c"
    and "\<forall>img \<in> set imgs. decode env (url img) \<noteq> None"
    and "doc_orientation pdf = ori"
  shows "\<exists>pdf'. pages_loop env ps i imgs pdf = Done pdf'
           \<and> doc_pages pdf' = doc_pages pdf
               @ map (\<lambda>img. [place env ps (newPDF ori) img (the (decode env (url img)))]) imgs"
  using assms
proof (induction imgs arbitrary: i pdf)
  case Nil
  then show ?case by simp
next
  case (Cons img rest)
  from Cons.prems obtain d where d: "decode env (url img) = Some d" by auto
  define p where "p = place env ps (newPDF ori) img d"
  have pl: "place env ps (addPage pdf) img d = p"
    unfolding p_def using Cons.prems(4) by (intro place_cong) (simp add: orientation_addPage)
  have step: "pages_loop env ps i (img # rest) pdf = pages_loop env ps (Suc i) rest (addImage p (addPage pdf))"
    using Cons.prems(1,2) d pl by (simp add: Let_def)
  have o: "doc_orientation (addImage p (addPage pdf)) = ori"
    using Cons.prems(4) by (simp add: orientation_addPage orientation_addImage)
  have rest: "\<forall>img \<in> set rest. decode env (url img) \<noteq> None"
    using Cons.prems(3) by simp
  from Cons.IH [OF _ Cons.prems(2) rest o, of "Suc i"]
  obtain pdf' where r: "pages_loop env ps (Suc i) rest (addImage p (addPage pdf)) = Done pdf'"
    "doc_pages pdf' = doc_pages (addImage p (addPage pdf))
        @ map (\<lambda>img. [place env ps (newPDF ori) img (the (decode env (url img)))]) rest"
    by auto
  have "doc_pages pdf' = doc_pages pdf
      @ map (\<lambda>img. [place env ps (newPDF ori) img (the (decode env (url img)))]) (img # rest)"
    using r(2) d by (simp add: addImage_addPage p_def)
  with step r(1) show ?case by simp
qed

lemma pages_loop_all:
  assumes "imgs \<noteq> []" and "\<forall>c. \<not> throws env c"
    and "\<forall>img \<in> set imgs. decode env (url img) \<noteq> None"
  shows "\<exists>pdf'. pages_loop env ps 0 imgs (newPDF ori) = Done pdf'
           \<and> doc_pages pdf' = map (\<lambda>img. [place env ps (newPDF ori) img (the (decode env (url img)))]) imgs"
proof -
  from assms(1) obtain img rest where imgs: "imgs = img # rest" by (cases imgs) auto
  from assms(3) imgs obtain d where d: "decode env (url img) = Some d" by auto
  define p where "p = place env ps (newPDF ori) img d"
  have step: "pages_loop env ps 0 imgs (newPDF ori) = pages_loop env ps (Suc 0) rest (addImage p (newPDF ori))"
    using d imgs assms(2) by (simp add: Let_def p_def)
  have rest: "\<forall>img \<in> set rest. decode env (url img) \<noteq> None" using assms(3) imgs by simp
  have o: "doc_orientation (addImage p (newPDF ori)) = ori"
    by (simp add: orientation_addImage newPDF_def)
  from pages_loop_later [OF _ assms(2) rest o, of "Suc 0" ps]
  obtain pdf' where r: "pages_loop env ps (Suc 0) rest (addImage p (newPDF ori)) = Done pdf'"
    "doc_pages pdf' = doc_pages (addImage p (newPDF ori))
        @ map (\<lambda>img. [place env ps (newPDF ori) img (the (decode env (url img)))]) rest"
    by auto
  have "doc_pages pdf' = map (\<lambda>img. [place env ps (newPDF ori) img (the (decode env (url img)))]) imgs"
    using r(2) d imgs by (simp add: addImage_newPDF p_def)
  with step r(1) show ?thesis by simp
qed


text \<open>
  C1, as stated, fails: not every non-empty collection yields a document. With three
  entries of accepted types of which only the first ever fires its load event,
  \<open>generatePDF\<close> stays pending at the second entry: it never returns and saves nothing.
\<close>

theorem generatePDF_stall_counterexample:
  "selectedImages three \<noteq> []
   \<and> map file_type (map img_file (selectedImages three)) = [''image/png'', ''image/jpeg'', ''image/gif'']
   \<and> generatePDF env_stall three =
       Hung (three\<lparr>loading := True,
                   status := Some \<lparr>message = ''Generating PDF...'', severity = info\<rparr>\<rparr>) []
   \<and> effects (generatePDF env_stall three) = []"
proof -
  have ne: "selectedImages three \<noteq> []"
    by (simp add: three_def)
  have ty: "map file_type (map img_file (selectedImages three))
      = [''image/png'', ''image/jpeg'', ''image/gif'']"
    by (simp add: three_def png1_def gif1_def)
  have loop: "pages_loop env_stall (pageSettings three) 0 (selectedImages three)
      (newPDF (orientation (pageSettings three))) = Pending"
    by (simp add: three_def env_stall_def Let_def)
  have run: "generatePDF env_stall three =
      Hung (three\<lparr>loading := True,
                  status := Some \<lparr>message = ''Generating PDF...'', severity = info\<rparr>\<rparr>) []"
    using ne loop by (simp add: generatePDF_def Let_def env_stall_def)
  from ne ty run show ?thesis by simp
qed

text \<open>
  C1, amended. For a non-empty collection whose images all load with positive pixel
  sizes, and when no library call fails, \<open>generatePDF\<close> saves one document with exactly
  one page per entry, in the order of the collection. The page of an entry of pixel size
  \<open>(w, h)\<close>, on pages of size \<open>(W, H)\<close> with margin \<open>m\<close>, holds one image scaled by
  \<open>ratio = min ((W - 2m) / w) ((H - 2m) / h)\<close> and placed at \<open>x = (W - ratio w) / 2\<close>,
  \<open>y = (H - ratio h) / 2\<close>; it is encoded as PNG when the file's type is \<open>image/png\<close> and
  as JPEG otherwise.
\<close>

theorem generatePDF_pages:
  assumes ne: "selectedImages s \<noteq> []"
    and nothrow: "\<forall>c. \<not> throws env c"
    and dec: "\<forall>img \<in> set (selectedImages s).
                \<exists>w h. decode env (url img) = Some (w, h) \<and> 0 < w \<and> 0 < h"
  shows "\<exists>pdf st.
      generatePDF env s = Returned st [Save pdf (''images-'' @ string_of_nat (now env) @ ''.pdf'')]
      \<and> length (doc_pages pdf) = length (selectedImages s)
      \<and> (\<forall>i < length (selectedImages s). \<forall>w h.
            decode env (url (selectedImages s ! i)) = Some (w, h) \<longrightarrow>
            (let img = selectedImages s ! i;
                 W = fst (pageSize env (orientation (pageSettings s)));
                 H = snd (pageSize env (orientation (pageSettings s)));
                 m = margin (pageSettings s);
                 ratio = min ((W - 2 * m) / real w) ((H - 2 * m) / real h)
             in doc_pages pdf ! i =
                  [\<lparr>src = url img,
                    fmt = (if file_type (img_file img) = ''image/png'' then PNG else JPEG),
                    pos_x = (W - ratio * real w) / 2,
                    pos_y = (H - ratio * real h) / 2,
                    width = ratio * real w,
                    height = ratio * real h,
                    img_alias = [], compression = ''FAST''\<rparr>]))"
proof -
  let ?ps = "pageSettings s" and ?imgs = "selectedImages s"
  have dec': "\<forall>img \<in> set ?imgs. decode env (url img) \<noteq> None"
    using dec by fastforce
  from pages_loop_all [OF ne nothrow dec', of ?ps "orientation ?ps"]
  obtain pdf where loop: "pages_loop env ?ps 0 ?imgs (newPDF (orientation ?ps)) = Done pdf"
    and pgs: "doc_pages pdf =
      map (\<lambda>img. [place env ?ps (newPDF (orientation ?ps)) img (the (decode env (url img)))]) ?imgs"
    by blast
  have run: "\<exists>st. generatePDF env s =
      Returned st [Save pdf (''images-'' @ string_of_nat (now env) @ ''.pdf'')]"
    using ne nothrow loop by (simp add: generatePDF_def Let_def)
  have len: "length (doc_pages pdf) = length ?imgs"
    by (simp add: pgs)
  have page: "doc_pages pdf ! i =
      [place env ?ps (newPDF (orientation ?ps)) (?imgs ! i) (w, h)]"
    if "i < length ?imgs" and "decode env (url (?imgs ! i)) = Some (w, h)" for i w h
    using that by (simp add: pgs)
  have geom: "place env ?ps (newPDF (orientation ?ps)) img (w, h) =
      (let W = fst (pageSize env (orientation ?ps));
           H = snd (pageSize env (orientation ?ps));
           m = margin ?ps;
           ratio = min ((W - 2 * m) / real w) ((H - 2 * m) / real h)
       in \<lparr>src = url img,
           fmt = (if file_type (img_file img) = ''image/png'' then PNG else JPEG),
           pos_x = (W - ratio * real w) / 2,
           pos_y = (H - ratio * real h) / 2,
           width = ratio * real w,
           height = ratio * real h,
           img_alias = [], compression = ''FAST''\<rparr>)" for img w h
    by (simp add: place_def newPDF_def Let_def mult.commute)
  show ?thesis
    using run len page by (auto simp add: geom Let_def)
qed

theorem generatePDF_pages_witness:
  "\<exists>pdf st. generatePDF env_g three =
       Returned st [Save pdf (''images-'' @ string_of_nat (now env_g) @ ''.pdf'')]
     \<and> length (doc_pages pdf) = 3
     \<and> doc_pages pdf ! 0 = [\<lparr>src = ''blob:0'', fmt = PNG, pos_x = 143 / 4, pos_y = 10,
          width = 277 / 2, height = 277, img_alias = [], compression = ''FAST''\<rparr>]
     \<and> doc_pages pdf ! 1 = [\<lparr>src = ''blob:1'', fmt = JPEG, pos_x = 10, pos_y = 499 / 4,
          width = 190, height = 95 / 2, img_alias = [], compression = ''FAST''\<rparr>]
     \<and> doc_pages pdf ! 2 = [\<lparr>src = ''blob:2'', fmt = JPEG, pos_x = 10, pos_y = 107 / 2,
          width = 190, height = 190, img_alias = [], compression = ''FAST''\<rparr>]"
proof -
  have ne: "selectedImages three \<noteq> []"
    by (simp add: three_def)
  have nothrow: "\<forall>c. \<not> throws env_g c"
    by (simp add: env_g_def)
  have dec: "\<forall>img \<in> set (selectedImages three).
      \<exists>w h. decode env_g (url img) = Some (w, h) \<and> 0 < w \<and> 0 < h"
    by (simp add: three_def env_g_def)
  from generatePDF_pages [OF ne nothrow dec]
  obtain pdf st where run: "generatePDF env_g three =
      Returned st [Save pdf (''images-'' @ string_of_nat (now env_g) @ ''.pdf'')]"
    and len: "length (doc_pages pdf) = length (selectedImages three)"
    and page: "\<forall>i < length (selectedImages three). \<forall>w h.
            decode env_g (url (selectedImages three ! i)) = Some (w, h) \<longrightarrow>
            (let img = selectedImages three ! i;
                 W = fst (pageSize env_g (orientation (pageSettings three)));
                 H = snd (pageSize env_g (orientation (pageSettings three)));
                 m = margin (pageSettings three);
                 ratio = min ((W - 2 * m) / real w) ((H - 2 * m) / real h)
             in doc_pages pdf ! i =
                  [\<lparr>src = url img,
                    fmt = (if file_type (img_file img) = ''image/png'' then PNG else JPEG),
                    pos_x = (W - ratio * real w) / 2,
                    pos_y = (H - ratio * real h) / 2,
                    width = ratio * real w,
                    height = ratio * real h,
                    img_alias = [], compression = ''FAST''\<rparr>])"
    by blast
  have p0: "doc_pages pdf ! 0 = [\<lparr>src = ''blob:0'', fmt = PNG, pos_x = 143 / 4, pos_y = 10,
          width = 277 / 2, height = 277, img_alias = [], compression = ''FAST''\<rparr>]"
    using page [rule_format, of 0 100 200]
    by (simp add: three_def env_g_def initial_def png1_def)
  have p1: "doc_pages pdf ! 1 = [\<lparr>src = ''blob:1'', fmt = JPEG, pos_x = 10, pos_y = 499 / 4,
          width = 190, height = 95 / 2, img_alias = [], compression = ''FAST''\<rparr>]"
    using page [rule_format, of 1 400 100]
    by (simp add: three_def env_g_def initial_def)
  have p2: "doc_pages pdf ! 2 = [\<lparr>src = ''blob:2'', fmt = JPEG, pos_x = 10, pos_y = 107 / 2,
          width = 190, height = 190, img_alias = [], compression = ''FAST''\<rparr>]"
    using page [rule_format, of 2 300 300]
    by (simp add: three_def env_g_def initial_def gif1_def)
  from run len p0 p1 p2 show ?thesis
    by (simp add: three_def)
qed

lemma place_quality: "place env (ps\<lparr>quality := q\<rparr>) pdf img dims = place env ps pdf img dims"
  by (simp add: place_def)

lemma pages_loop_quality:
  "pages_loop env (ps\<lparr>quality := q\<rparr>) i imgs pdf = pages_loop env ps i imgs pdf"
  by (induction imgs arbitrary: i pdf) (simp_all add: place_quality Let_def split: option.splits)

text \<open>
  C8. The quality setting does not influence the assembly: with any other value of
  \<open>quality\<close>, \<open>generatePDF\<close> makes the same calls to the outside (so it saves the same
  document under the same name), returns in the same cases, and leaves the same state
  apart from the setting itself.
\<close>

theorem quality_noninterference:
  "effects (generatePDF env (with_quality q s)) = effects (generatePDF env s)
   \<and> final_state (generatePDF env (with_quality q s)) = with_quality q (final_state (generatePDF env s))
   \<and> (\<exists>st es. generatePDF env (with_quality q s) = Returned st es) =
       (\<exists>st es. generatePDF env s = Returned st es)"
  by (simp add: generatePDF_def with_quality_def pages_loop_quality caught_def Let_def
      split: loop_result.splits)

theorem quality_noninterference_witness:
  "effects (generatePDF env_g (with_quality 50 three)) = effects (generatePDF env_g three)"
  using quality_noninterference [of env_g 50 three] by simp

lemma generatePDF_writes:
  "final_state (generatePDF env s) =
     s\<lparr>loading := loading (final_state (generatePDF env s)),
       status := status (final_state (generatePDF env s))\<rparr>"
proof (cases "length (selectedImages s) = 0")
  case True
  then show ?thesis
    by (simp add: generatePDF_def)
next
  case False
  then show ?thesis
    by (cases "pages_loop env (pageSettings s) 0 (selectedImages s)
                 (newPDF (orientation (pageSettings s)))")
      (simp_all add: generatePDF_def caught_def Let_def)
qed

text \<open>
  C10. \<open>generatePDF\<close> never changes the collection or the page settings: whether it
  returns after success, returns after an error, or never returns, the list of entries
  and the page settings in the state it leaves are those it started with.
\<close>

theorem generatePDF_frame:
  "selectedImages (final_state (generatePDF env s)) = selectedImages s
   \<and> pageSettings (final_state (generatePDF env s)) = pageSettings s
   \<and> draggedImage (final_state (generatePDF env s)) = draggedImage s"
proof -
  let ?s' = "final_state (generatePDF env s)"
  have w: "?s' = s\<lparr>loading := loading ?s', status := status ?s'\<rparr>"
    by (rule generatePDF_writes)
  have "selectedImages ?s' = selectedImages (s\<lparr>loading := loading ?s', status := status ?s'\<rparr>)"
    using w by simp
  moreover have "pageSettings ?s' = pageSettings (s\<lparr>loading := loading ?s', status := status ?s'\<rparr>)"
    using w by simp
  moreover have "draggedImage ?s' = draggedImage (s\<lparr>loading := loading ?s', status := status ?s'\<rparr>)"
    using w by simp
  ultimately show ?thesis by simp
qed

theorem generatePDF_frame_witness:
  "selectedImages (final_state (generatePDF env_g three)) = selectedImages three
   \<and> pageSettings (final_state (generatePDF env_g three)) =
       \<lparr>orientation = portrait, margin = 10, quality = 100\<rparr>"
  using generatePDF_frame [of env_g three] by (simp add: three_def initial_def)

section \<open>Identifiers\<close>

text \<open>
  C3. Entry ids are meant to be unique, but \<open>generateId\<close> only cuts nine characters out
  of a random number's rendering and nothing compares the result with the ids in use:
  when the two random numbers drawn for a batch of two files differ only after those
  nine characters, both new entries carry the same id.
\<close>

theorem generateId_collision:
  "random36 env_same 0 \<noteq> random36 env_same 1
   \<and> map ident (selectedImages (fst (handleFiles env_same (Some [png1, gif1]) initial)))
       = [''k3x9q2m7p'', ''k3x9q2m7p'']
   \<and> \<not> distinct (map ident (selectedImages (fst (handleFiles env_same (Some [png1, gif1]) initial))))"
proof -
  have v: "validImages [png1, gif1] = [png1, gif1]"
    by (simp add: validImages_def accepted_def png1_def gif1_def)
  have r: "random36 env_same 0 \<noteq> random36 env_same 1"
    by (simp add: env_same_def)
  have "map ident (selectedImages (fst (handleFiles env_same (Some [png1, gif1]) initial)))
      = [''k3x9q2m7p'', ''k3x9q2m7p'']"
    by (simp add: handleFiles_def v imageData_def generateId_def substr_def env_same_def initial_def)
  with r show ?thesis by simp
qed

section \<open>Removal and preview handles\<close>

text \<open>
  C2, as stated, fails: removing one of three entries releases no preview handle, and so
  does clearing the three entries.
\<close>

theorem release_counterexample:
  "length (selectedImages three) = 3
   \<and> length (selectedImages (fst (removeImage ''b2'' three))) = 2
   \<and> length (released (snd (removeImage ''b2'' three))) \<noteq> 1
   \<and> selectedImages (fst (clearAll three)) = []
   \<and> length (released (snd (clearAll three))) \<noteq> 3"
  by (simp add: removeImage_def clearAll_def three_def)

text \<open>
  C2, amended. \<open>removeImage\<close> keeps exactly the entries whose id differs from the given
  one and \<open>clearAll\<close> empties the collection; neither releases a preview handle.
\<close>

theorem removal_releases_nothing:
  "selectedImages (fst (removeImage i s)) = filter (\<lambda>img. ident img \<noteq> i) (selectedImages s)
   \<and> released (snd (removeImage i s)) = []
   \<and> selectedImages (fst (clearAll s)) = []
   \<and> released (snd (clearAll s)) = []"
  by (simp add: removeImage_def clearAll_def Let_def)

theorem removal_releases_nothing_witness:
  "map ident (selectedImages (fst (removeImage ''b2'' three))) = [''a1'', ''c3'']
   \<and> released (snd (removeImage ''b2'' three)) = []
   \<and> released (snd (clearAll three)) = []"
  using removal_releases_nothing [of "''b2''" three] by (simp add: three_def)

section \<open>Drag relocation\<close>

text \<open>
  C4, as stated, fails: dragging the first of three entries onto the third puts it after
  the third entry, not immediately before it.
\<close>

theorem relocation_counterexample:
  "map ident (selectedImages dragging) = [''a1'', ''b2'', ''c3'']
   \<and> map ident (selectedImages (fst (handleDropImage ''c3'' dragging))) = [''b2'', ''c3'', ''a1'']
   \<and> map ident (selectedImages (fst (handleDropImage ''c3'' dragging))) \<noteq> [''b2'', ''a1'', ''c3'']"
  by (simp add: handleDropImage_def dragging_def three_def relocate_def splice_in_def splice_out_def)

lemma findIndex_Some: "findIndex P xs = Some i \<Longrightarrow> i < length xs \<and> P (xs ! i)"
proof (induction xs arbitrary: i)
  case Nil
  then show ?case by simp
next
  case (Cons x xs)
  then show ?case
    by (cases "P x") (auto split: option.splits)
qed

lemma length_splice_out: "i < length xs \<Longrightarrow> length (splice_out i xs) = length xs - 1"
  by (simp add: splice_out_def)

lemma mset_splice_out: "i < length xs \<Longrightarrow> add_mset (xs ! i) (mset (splice_out i xs)) = mset xs"
proof -
  assume "i < length xs"
  then have "xs = take i xs @ xs ! i # drop (Suc i) xs"
    by (rule id_take_nth_drop)
  then have "mset xs = mset (take i xs @ xs ! i # drop (Suc i) xs)"
    by simp
  then show ?thesis
    by (simp add: splice_out_def)
qed

lemma mset_splice_in: "mset (splice_in j x ys) = add_mset x (mset ys)"
proof -
  have "mset (take j ys) + mset (drop j ys) = mset ys"
    by (metis append_take_drop_id mset_append)
  then show ?thesis
    by (simp add: splice_in_def)
qed

lemma nth_splice_in: "j \<le> length ys \<Longrightarrow> splice_in j x ys ! j = x"
  by (simp add: splice_in_def nth_append)

lemma splice_out_in: "j \<le> length ys \<Longrightarrow> splice_out j (splice_in j x ys) = ys"
  by (simp add: splice_in_def splice_out_def)

lemma nth_splice_in_after: "j < length ys \<Longrightarrow> splice_in j x ys ! Suc j = ys ! j"
  by (simp add: splice_in_def nth_append)

lemma nth_splice_in_before: "k < j \<Longrightarrow> j \<le> length ys \<Longrightarrow> splice_in j x ys ! k = ys ! k"
  by (simp add: splice_in_def nth_append)

lemma nth_splice_out_low: "k < i \<Longrightarrow> i < length xs \<Longrightarrow> splice_out i xs ! k = xs ! k"
  by (simp add: splice_out_def nth_append)

lemma nth_splice_out_high: "i \<le> k \<Longrightarrow> Suc k < length xs \<Longrightarrow> splice_out i xs ! k = xs ! Suc k"
  by (simp add: splice_out_def nth_append min_def)

lemma relocate_found:
  assumes i: "findIndex (\<lambda>img. ident img = d) prev = Some i"
    and j: "findIndex (\<lambda>img. ident img = t) prev = Some j"
  shows "relocate d t prev = splice_in j (prev ! i) (splice_out i prev)"
  using assms by (simp add: relocate_def)

lemma relocate_mset: "mset (relocate d t prev) = mset prev"
proof (cases "findIndex (\<lambda>img. ident img = d) prev")
  case None
  then show ?thesis by (simp add: relocate_def)
next
  case (Some i)
  then have "i < length prev" by (simp add: findIndex_Some)
  then have "add_mset (prev ! i) (mset (splice_out i prev)) = mset prev"
    by (rule mset_splice_out)
  with Some show ?thesis
    by (simp add: relocate_def mset_splice_in split: option.splits)
qed

lemma relocate_place:
  assumes i: "findIndex (\<lambda>img. ident img = d) prev = Some i"
    and j: "findIndex (\<lambda>img. ident img = t) prev = Some j"
  shows "relocate d t prev ! j = prev ! i"
    and "splice_out j (relocate d t prev) = splice_out i prev"
    and "j < i \<Longrightarrow> relocate d t prev ! Suc j = prev ! j"
    and "i < j \<Longrightarrow> relocate d t prev ! (j - 1) = prev ! j"
proof -
  have il: "i < length prev" and jl: "j < length prev"
    using i j by (simp_all add: findIndex_Some)
  let ?ys = "splice_out i prev"
  have len: "length ?ys = length prev - 1"
    using il by (rule length_splice_out)
  have jy: "j \<le> length ?ys"
    using jl len by simp
  have r: "relocate d t prev = splice_in j (prev ! i) ?ys"
    using i j by (rule relocate_found)
  show "relocate d t prev ! j = prev ! i"
    using jy by (simp add: r nth_splice_in)
  show "splice_out j (relocate d t prev) = splice_out i prev"
    using jy by (simp add: r splice_out_in)
  show "relocate d t prev ! Suc j = prev ! j" if "j < i"
  proof -
    have "j < length ?ys" using that il len by simp
    then have "splice_in j (prev ! i) ?ys ! Suc j = ?ys ! j"
      by (rule nth_splice_in_after)
    also have "?ys ! j = prev ! j"
      using that il by (rule nth_splice_out_low)
    finally show ?thesis by (simp add: r)
  qed
  show "relocate d t prev ! (j - 1) = prev ! j" if "i < j"
  proof -
    have "j - 1 < j" using that by simp
    then have "splice_in j (prev ! i) ?ys ! (j - 1) = ?ys ! (j - 1)"
      using jy by (rule nth_splice_in_before)
    also have "?ys ! (j - 1) = prev ! Suc (j - 1)"
      using that jl by (intro nth_splice_out_high) simp_all
    finally show ?thesis using that by (simp add: r)
  qed
qed

text \<open>
  C4, amended. \<open>handleDropImage\<close> keeps the multiset of entries (so the multiset of ids)
  and the length. It does nothing at all when no drag is active or the dragged id is the
  target id, and it leaves the collection as it is when either id is not found.
  Otherwise, with the source first found at index \<open>i\<close> and the target at index \<open>j\<close>, the
  source entry ends up at index \<open>j\<close> and the other entries keep their order; the target
  then follows the source directly when the source came from behind it (\<open>j < i\<close>) and
  precedes it directly when the source came from before it (\<open>i < j\<close>).
\<close>

theorem handleDropImage_relocates:
  "(let prev = selectedImages s; res = selectedImages (fst (handleDropImage t s)) in
      mset res = mset prev
    \<and> mset (map ident res) = mset (map ident prev)
    \<and> length res = length prev
    \<and> (draggedImage s = None \<or> draggedImage s = Some [] \<or> draggedImage s = Some t
         \<longrightarrow> handleDropImage t s = (s, []))
    \<and> (\<forall>d. draggedImage s = Some d \<and>
            (findIndex (\<lambda>img. ident img = d) prev = None
             \<or> findIndex (\<lambda>img. ident img = t) prev = None) \<longrightarrow> res = prev)
    \<and> (\<forall>d i j. draggedImage s = Some d \<and> d \<noteq> [] \<and> d \<noteq> t
            \<and> findIndex (\<lambda>img. ident img = d) prev = Some i
            \<and> findIndex (\<lambda>img. ident img = t) prev = Some j \<longrightarrow>
          res ! j = prev ! i
          \<and> splice_out j res = splice_out i prev
          \<and> (j < i \<longrightarrow> res ! Suc j = prev ! j)
          \<and> (i < j \<longrightarrow> res ! (j - 1) = prev ! j)))"
proof -
  let ?prev = "selectedImages s" and ?res = "selectedImages (fst (handleDropImage t s))"
  have res: "?res = ?prev \<or> (\<exists>d. draggedImage s = Some d \<and> d \<noteq> [] \<and> d \<noteq> t
      \<and> ?res = relocate d t ?prev)"
    by (simp add: handleDropImage_def split: option.splits)
  then have m: "mset ?res = mset ?prev"
    by (auto simp add: relocate_mset)
  have ids: "mset (map ident ?res) = mset (map ident ?prev)"
    using m by (metis mset_map)
  have len: "length ?res = length ?prev"
    using m by (rule mset_eq_length)
  have noop: "draggedImage s = None \<or> draggedImage s = Some [] \<or> draggedImage s = Some t
      \<longrightarrow> handleDropImage t s = (s, [])"
    by (auto simp add: handleDropImage_def)
  have missing: "?res = ?prev"
    if "draggedImage s = Some d"
      and "findIndex (\<lambda>img. ident img = d) ?prev = None
           \<or> findIndex (\<lambda>img. ident img = t) ?prev = None" for d
    using that by (auto simp add: handleDropImage_def relocate_def split: option.splits)
  have moved: "?res ! j = ?prev ! i \<and> splice_out j ?res = splice_out i ?prev
      \<and> (j < i \<longrightarrow> ?res ! Suc j = ?prev ! j) \<and> (i < j \<longrightarrow> ?res ! (j - 1) = ?prev ! j)"
    if "draggedImage s = Some d" and "d \<noteq> []" and "d \<noteq> t"
      and i: "findIndex (\<lambda>img. ident img = d) ?prev = Some i"
      and j: "findIndex (\<lambda>img. ident img = t) ?prev = Some j" for d i j
  proof -
    have "?res = relocate d t ?prev"
      using that(1-3) by (simp add: handleDropImage_def)
    then show ?thesis
      using relocate_place [OF i j] by simp
  qed
  show ?thesis
    unfolding Let_def using m ids len noop missing moved by blast
qed

theorem handleDropImage_relocates_witness:
  "map ident (selectedImages (fst (handleDropImage ''c3'' dragging))) = [''b2'', ''c3'', ''a1'']
   \<and> selectedImages (fst (handleDropImage ''c3'' dragging)) ! (2 - 1) = selectedImages dragging ! 2
   \<and> length (selectedImages (fst (handleDropImage ''c3'' dragging))) = 3"
proof -
  have d: "draggedImage dragging = Some ''a1''" "''a1'' \<noteq> []" "''a1'' \<noteq> ''c3''"
    by (simp_all add: dragging_def)
  have i: "findIndex (\<lambda>img. ident img = ''a1'') (selectedImages dragging) = Some 0"
    by (simp add: dragging_def three_def)
  have j: "findIndex (\<lambda>img. ident img = ''c3'') (selectedImages dragging) = Some 2"
    by (simp add: dragging_def three_def)
  have l: "length (selectedImages dragging) = 3"
    by (simp add: dragging_def three_def)
  have "selectedImages (fst (handleDropImage ''c3'' dragging)) ! (2 - 1) = selectedImages dragging ! 2
      \<and> length (selectedImages (fst (handleDropImage ''c3'' dragging))) = 3"
    using handleDropImage_relocates [of dragging "''c3''"] d i j l
    unfolding Let_def by fastforce
  moreover have "map ident (selectedImages (fst (handleDropImage ''c3'' dragging))) = [''b2'', ''c3'', ''a1'']"
    by (simp add: handleDropImage_def dragging_def three_def relocate_def splice_in_def splice_out_def)
  ultimately show ?thesis by simp
qed

section \<open>Page selection of the split tool\<close>

lemma accepts_ok: "accepts (js ''1,3-5,8'')"
  by (simp add: accepts_def js_def trim_def strip_spaces_def isSpace_def pageRegex_def
      Plus_def Opt_def Chr_def isDigit_def)

lemma accepts_no1: "\<not> accepts (js ''1,,3'')"
  by (simp add: accepts_def js_def trim_def strip_spaces_def isSpace_def pageRegex_def
      Plus_def Opt_def Chr_def isDigit_def)

lemma accepts_no2: "\<not> accepts (js ''abc'')"
  by (simp add: accepts_def js_def trim_def strip_spaces_def isSpace_def pageRegex_def
      Plus_def Opt_def Chr_def isDigit_def)

lemma accepts_sp: "accepts (js ''1, 3-5'')"
  by (simp add: accepts_def js_def trim_def strip_spaces_def isSpace_def pageRegex_def
      Plus_def Opt_def Chr_def isDigit_def)

subsection \<open>The matcher decides the language\<close>

lemma conc_iff: "w \<in> conc A B \<longleftrightarrow> (\<exists>u v. w = u @ v \<and> u \<in> A \<and> v \<in> B)"
  by (auto simp add: conc_def)

lemma nullable_iff: "nullable r \<longleftrightarrow> [] \<in> lang r"
  by (induction r) (auto simp add: conc_iff star_nil)

lemma star_cons:
  "c # w \<in> star A \<longleftrightarrow> (\<exists>u v. c # u \<in> A \<and> v \<in> star A \<and> w = u @ v)"
proof
  assume "c # w \<in> star A"
  then show "\<exists>u v. c # u \<in> A \<and> v \<in> star A \<and> w = u @ v"
  proof (induction "c # w" rule: star.induct)
    case (star_step u v)
    show ?case
    proof (cases u)
      case Nil
      with star_step show ?thesis by simp
    next
      case (Cons d u')
      with star_step.hyps show ?thesis by auto
    qed
  qed
next
  assume "\<exists>u v. c # u \<in> A \<and> v \<in> star A \<and> w = u @ v"
  then obtain u v where "c # u \<in> A" "v \<in> star A" "w = u @ v" by blast
  then have "(c # u) @ v \<in> star A" by (intro star_step)
  then show "c # w \<in> star A" using \<open>w = u @ v\<close> by simp
qed

lemma conc_cons:
  "c # w \<in> conc A B \<longleftrightarrow>
     (\<exists>u v. c # u \<in> A \<and> v \<in> B \<and> w = u @ v) \<or> ([] \<in> A \<and> c # w \<in> B)"
proof -
  have "c # w \<in> conc A B \<longleftrightarrow> (\<exists>u v. c # w = u @ v \<and> u \<in> A \<and> v \<in> B)"
    by (rule conc_iff)
  also have "\<dots> \<longleftrightarrow> (\<exists>u v. c # u \<in> A \<and> v \<in> B \<and> w = u @ v) \<or> ([] \<in> A \<and> c # w \<in> B)"
    by (auto simp add: Cons_eq_append_conv)
  finally show ?thesis .
qed

lemma lang_deriv: "w \<in> lang (deriv c r) \<longleftrightarrow> c # w \<in> lang r"
proof (induction r arbitrary: w)
  case (Seq r s)
  have "w \<in> lang (deriv c (Seq r s)) \<longleftrightarrow>
      (\<exists>u v. c # u \<in> lang r \<and> v \<in> lang s \<and> w = u @ v) \<or> ([] \<in> lang r \<and> c # w \<in> lang s)"
    using Seq by (auto simp add: conc_iff nullable_iff)
  also have "\<dots> \<longleftrightarrow> c # w \<in> conc (lang r) (lang s)"
    by (simp only: conc_cons)
  finally show ?case by simp
next
  case (Star r)
  have "w \<in> lang (deriv c (Star r)) \<longleftrightarrow>
      (\<exists>u v. c # u \<in> lang r \<and> v \<in> star (lang r) \<and> w = u @ v)"
    using Star by (auto simp add: conc_iff)
  also have "\<dots> \<longleftrightarrow> c # w \<in> star (lang r)"
    by (simp only: star_cons)
  finally show ?case by simp
qed auto

lemma rx_test_iff: "rx_test r s \<longleftrightarrow> s \<in> lang r"
  by (induction s arbitrary: r) (simp_all add: nullable_iff lang_deriv)

subsection \<open>The language of the pattern\<close>

lemma star_cls: "w \<in> star {[c] | c. P c} \<longleftrightarrow> list_all P w"
proof
  assume "w \<in> star {[c] | c. P c}"
  then show "list_all P w"
    by (induction rule: star.induct) auto
next
  assume "list_all P w"
  then show "w \<in> star {[c] | c. P c}"
  proof (induction w)
    case Nil
    show ?case by (rule star_nil)
  next
    case (Cons c w)
    then have "[c] \<in> {[c] | c. P c}" and "w \<in> star {[c] | c. P c}"
      by simp_all
    then have "[c] @ w \<in> star {[c] | c. P c}"
      by (rule star_step)
    then show ?case by simp
  qed
qed

lemma conc_cls: "w \<in> conc {[c] | c. P c} B \<longleftrightarrow> (\<exists>c v. w = c # v \<and> P c \<and> v \<in> B)"
proof
  assume "w \<in> conc {[c] | c. P c} B"
  then obtain u v where "w = u @ v" "u \<in> {[c] | c. P c}" "v \<in> B"
    by (auto simp add: conc_iff)
  then show "\<exists>c v. w = c # v \<and> P c \<and> v \<in> B" by auto
next
  assume "\<exists>c v. w = c # v \<and> P c \<and> v \<in> B"
  then obtain c v where "w = [c] @ v" "[c] \<in> {[c] | c. P c}" "v \<in> B" by auto
  then show "w \<in> conc {[c] | c. P c} B"
    unfolding conc_iff by blast
qed

lemma lang_digits: "w \<in> lang (Plus (Cls isDigit)) \<longleftrightarrow> NUMBER w"
proof -
  have "w \<in> lang (Plus (Cls isDigit)) \<longleftrightarrow> (\<exists>c v. w = c # v \<and> isDigit c \<and> list_all isDigit v)"
    by (simp add: Plus_def conc_cls star_cls)
  also have "\<dots> \<longleftrightarrow> NUMBER w"
    by (cases w) (auto simp add: NUMBER_def)
  finally show ?thesis .
qed

lemma lang_page:
  "w \<in> lang (Seq (Plus (Cls isDigit)) (Opt (Seq (Chr CHR ''-'') (Plus (Cls isDigit))))) \<longleftrightarrow> PAGE w"
proof -
  have "w \<in> lang (Seq (Plus (Cls isDigit)) (Opt (Seq (Chr CHR ''-'') (Plus (Cls isDigit))))) \<longleftrightarrow>
      (\<exists>a v. w = a @ v \<and> NUMBER a \<and> (v = [] \<or> (\<exists>b. v = of_char CHR ''-'' # b \<and> NUMBER b)))"
    unfolding lang.simps(4) conc_iff lang_digits Opt_def lang.simps(5) Chr_def
    by (auto simp add: conc_iff lang_digits)
  also have "\<dots> \<longleftrightarrow> PAGE w"
    unfolding PAGE_def by auto
  finally show ?thesis .
qed

lemma digit_not_space: "isDigit c \<Longrightarrow> \<not> isSpace c"
  by (auto simp add: isDigit_def isSpace_def)

lemma NUMBER_chars: "NUMBER n \<Longrightarrow> list_all isDigit n"
  by (simp add: NUMBER_def)

lemma PAGE_chars: "PAGE p \<Longrightarrow> list_all (\<lambda>c. isDigit c \<or> c = of_char CHR ''-'') p"
  by (auto simp add: PAGE_def NUMBER_def list_all_iff)

lemma PAGESET_chars:
  assumes "PAGESET s"
  shows "list_all (\<lambda>c. isDigit c \<or> c = of_char CHR ''-'' \<or> c = of_char CHR '','') s"
proof -
  from assms obtain p ps where p: "PAGE p" and ps: "list_all PAGE ps"
    and s: "s = p @ concat (map (\<lambda>q. of_char CHR '','' # q) ps)"
    unfolding PAGESET_def by blast
  have "list_all (\<lambda>c. isDigit c \<or> c = of_char CHR ''-'' \<or> c = of_char CHR '','') q" if "PAGE q" for q
    using PAGE_chars [OF that] by (auto simp add: list_all_iff)
  with p ps show ?thesis
    unfolding s by (auto simp add: list_all_iff)
qed

lemma PAGESET_no_space: "PAGESET s \<Longrightarrow> list_all (\<lambda>c. \<not> isSpace c) s"
proof -
  assume "PAGESET s"
  then have "list_all (\<lambda>c. isDigit c \<or> c = of_char CHR ''-'' \<or> c = of_char CHR '','') s"
    by (rule PAGESET_chars)
  moreover have "\<not> isSpace c" if "isDigit c \<or> c = of_char CHR ''-'' \<or> c = of_char CHR '',''" for c
    using that by (auto simp add: isDigit_def isSpace_def)
  ultimately show ?thesis
    by (auto simp add: list_all_iff)
qed


lemma lang_item:
  "u \<in> lang (Seq (Chr CHR '','')
               (Seq (Star (Cls isSpace))
                 (Seq (Plus (Cls isDigit)) (Opt (Seq (Chr CHR ''-'') (Plus (Cls isDigit)))))))
   \<longleftrightarrow> (\<exists>w q. u = of_char CHR '','' # w @ q \<and> list_all isSpace w \<and> PAGE q)"
proof -
  let ?page = "Seq (Plus (Cls isDigit)) (Opt (Seq (Chr CHR ''-'') (Plus (Cls isDigit))))"
  have "u \<in> lang (Seq (Chr CHR '','') (Seq (Star (Cls isSpace)) ?page)) \<longleftrightarrow>
      (\<exists>c v. u = c # v \<and> c = of_char CHR '','' \<and> v \<in> lang (Seq (Star (Cls isSpace)) ?page))"
    unfolding Chr_def lang.simps(4) [of "Cls _"] lang.simps(3) by (rule conc_cls)
  also have "\<dots> \<longleftrightarrow> (\<exists>v. u = of_char CHR '','' # v \<and> v \<in> conc (star (lang (Cls isSpace))) (lang ?page))"
    by auto
  also have "\<dots> \<longleftrightarrow> (\<exists>w q. u = of_char CHR '','' # w @ q \<and> list_all isSpace w \<and> PAGE q)"
    unfolding conc_iff lang.simps(3) star_cls lang_page by blast
  finally show ?thesis .
qed

lemma list_all_space_nospace: "list_all isSpace w \<Longrightarrow> list_all (\<lambda>c. \<not> isSpace c) w \<Longrightarrow> w = []"
  by (cases w) auto

lemma star_items_pages:
  assumes "t \<in> star {u. \<exists>w q. u = of_char CHR '','' # w @ q \<and> list_all isSpace w \<and> PAGE q}"
    and "list_all (\<lambda>c. \<not> isSpace c) t"
  shows "\<exists>ps. list_all PAGE ps \<and> t = concat (map (\<lambda>q. of_char CHR '','' # q) ps)"
  using assms
proof (induction rule: star.induct)
  case star_nil
  have "list_all PAGE [] \<and> [] = concat (map (\<lambda>q. of_char CHR '','' # q) [])"
    by simp
  then show ?case by blast
next
  case (star_step u v)
  from star_step.hyps(1) obtain w q
    where u: "u = of_char CHR '','' # w @ q" and w: "list_all isSpace w" and q: "PAGE q"
    by blast
  from star_step.prems u have "list_all (\<lambda>c. \<not> isSpace c) w" and v: "list_all (\<lambda>c. \<not> isSpace c) v"
    by simp_all
  with w have "w = []" by (simp add: list_all_space_nospace)
  from star_step.IH [OF v] obtain ps
    where ps: "list_all PAGE ps" "v = concat (map (\<lambda>q. of_char CHR '','' # q) ps)"
    by blast
  have "list_all PAGE (q # ps) \<and> u @ v = concat (map (\<lambda>q. of_char CHR '','' # q) (q # ps))"
    using q ps u \<open>w = []\<close> by simp
  then show ?case by blast
qed

lemma pages_star_items:
  assumes "list_all PAGE ps"
  shows "concat (map (\<lambda>q. of_char CHR '','' # q) ps)
           \<in> star {u. \<exists>w q. u = of_char CHR '','' # w @ q \<and> list_all isSpace w \<and> PAGE q}"
  using assms
proof (induction ps)
  case Nil
  show ?case by (simp add: star_nil)
next
  case (Cons q ps)
  let ?B = "{u. \<exists>w q. u = of_char CHR '','' # w @ q \<and> list_all isSpace w \<and> PAGE q}"
  from Cons.prems have q: "PAGE q" and ps: "list_all PAGE ps" by simp_all
  have "of_char CHR '','' # [] @ q \<in> ?B"
    using q by (intro CollectI exI conjI) (rule refl, simp_all)
  then have "of_char CHR '','' # q \<in> ?B" by simp
  moreover have "concat (map (\<lambda>q. of_char CHR '','' # q) ps) \<in> star ?B"
    using ps by (rule Cons.IH)
  ultimately have "(of_char CHR '','' # q) @ concat (map (\<lambda>q. of_char CHR '','' # q) ps) \<in> star ?B"
    by (rule star_step)
  then show ?case by simp
qed

lemma lang_pageRegex:
  "s \<in> lang pageRegex \<and> list_all (\<lambda>c. \<not> isSpace c) s \<longleftrightarrow> PAGESET s"
proof -
  let ?B = "{u. \<exists>w q. u = of_char CHR '','' # w @ q \<and> list_all isSpace w \<and> PAGE q}"
  let ?page = "Seq (Plus (Cls isDigit)) (Opt (Seq (Chr CHR ''-'') (Plus (Cls isDigit))))"
  let ?item = "Seq (Chr CHR '','') (Seq (Star (Cls isSpace)) ?page)"
  have B: "lang ?item = ?B"
    using lang_item by blast
  have L: "s \<in> lang pageRegex \<longleftrightarrow> (\<exists>p t. s = p @ t \<and> PAGE p \<and> t \<in> star ?B)"
    unfolding pageRegex_def lang.simps(4) [of ?page] lang.simps(6) B conc_iff lang_page ..
  show ?thesis
  proof
    assume a: "s \<in> lang pageRegex \<and> list_all (\<lambda>c. \<not> isSpace c) s"
    with L obtain p t where s: "s = p @ t" and p: "PAGE p" and t: "t \<in> star ?B"
      by blast
    from a s have "list_all (\<lambda>c. \<not> isSpace c) t" by simp
    from star_items_pages [OF t this] obtain ps
      where "list_all PAGE ps" "t = concat (map (\<lambda>q. of_char CHR '','' # q) ps)"
      by blast
    with s p show "PAGESET s"
      unfolding PAGESET_def by blast
  next
    assume a: "PAGESET s"
    then obtain p ps where p: "PAGE p" and ps: "list_all PAGE ps"
      and s: "s = p @ concat (map (\<lambda>q. of_char CHR '','' # q) ps)"
      unfolding PAGESET_def by blast
    from pages_star_items [OF ps] p s have "s \<in> lang pageRegex"
      unfolding L by blast
    with PAGESET_no_space [OF a] show "s \<in> lang pageRegex \<and> list_all (\<lambda>c. \<not> isSpace c) s"
      by simp
  qed
qed

lemma trim_empty: "trim p = [] \<longleftrightarrow> list_all isSpace p"
proof -
  have "trim p = [] \<longleftrightarrow> (\<forall>c \<in> set (dropWhile isSpace p). isSpace c)"
    by (simp add: trim_def dropWhile_eq_Nil_conv)
  also have "\<dots> \<longleftrightarrow> dropWhile isSpace p = []"
  proof
    assume all: "\<forall>c \<in> set (dropWhile isSpace p). isSpace c"
    show "dropWhile isSpace p = []"
    proof (rule ccontr)
      assume ne: "dropWhile isSpace p \<noteq> []"
      then have "\<not> isSpace (hd (dropWhile isSpace p))" by (rule hd_dropWhile)
      moreover have "hd (dropWhile isSpace p) \<in> set (dropWhile isSpace p)"
        using ne by (rule hd_in_set)
      ultimately show False using all by blast
    qed
  next
    assume e: "dropWhile isSpace p = []"
    show "\<forall>c \<in> set (dropWhile isSpace p). isSpace c"
      unfolding e by simp
  qed
  also have "\<dots> \<longleftrightarrow> list_all isSpace p"
    by (simp add: dropWhile_eq_Nil_conv list_all_iff)
  finally show ?thesis .
qed

lemma strip_spaces_empty: "strip_spaces p = [] \<longleftrightarrow> list_all isSpace p"
  by (simp add: strip_spaces_def filter_empty_conv list_all_iff)

lemma PAGESET_not_empty: "PAGESET s \<Longrightarrow> s \<noteq> []"
  by (auto simp add: PAGESET_def PAGE_def NUMBER_def)

lemma accepts_iff: "accepts p \<longleftrightarrow> PAGESET (strip_spaces p)"
proof -
  have ns: "list_all (\<lambda>c. \<not> isSpace c) (strip_spaces p)"
    by (simp add: strip_spaces_def list_all_iff)
  have "rx_test pageRegex (strip_spaces p) \<longleftrightarrow> PAGESET (strip_spaces p)"
    using lang_pageRegex [of "strip_spaces p"] ns by (simp add: rx_test_iff)
  moreover have "trim p \<noteq> []" if "PAGESET (strip_spaces p)"
    using PAGESET_not_empty [OF that] by (simp add: trim_empty strip_spaces_empty)
  ultimately show ?thesis
    unfolding accepts_def by blast
qed

text \<open>
  C9, as stated, fails: the selection \<open>1, 3-5\<close> passes the validation although, with its
  blank, it is not a string of the grammar.
\<close>

theorem grammar_counterexample:
  "accepts (js ''1, 3-5'') \<and> \<not> PAGESET (js ''1, 3-5'')"
proof -
  have "\<not> list_all (\<lambda>c. \<not> isSpace c) (js ''1, 3-5'')"
    by (simp add: js_def isSpace_def)
  then have "\<not> PAGESET (js ''1, 3-5'')"
    using PAGESET_no_space by blast
  with accepts_sp show ?thesis by simp
qed

text \<open>
  C9, amended. With a file selected, \<open>handleSplit\<close> goes on to the request exactly when
  the page selection with all white space removed is a string of the grammar
  \<open>PAGESET\<close>, and otherwise stops with an error message before any request. The
  selection \<open>1,3-5,8\<close> is accepted; \<open>1,,3\<close> and \<open>abc\<close> are rejected.
\<close>

theorem handleSplit_validation:
  assumes "selectedFile s = Some f"
  shows "(PAGESET (strip_spaces (pages s)) \<longrightarrow>
            handleSplit s =
              Posting (s\<lparr>split_loading := True, split_error := None, split_success := None\<rparr>)
                f (pages s))
       \<and> (\<not> PAGESET (strip_spaces (pages s)) \<longrightarrow>
            (\<exists>msg. handleSplit s = Stopped (s\<lparr>split_error := Some msg\<rparr>)))
       \<and> (accepts (pages s) \<longleftrightarrow> PAGESET (strip_spaces (pages s)))
       \<and> accepts (js ''1,3-5,8'') \<and> \<not> accepts (js ''1,,3'') \<and> \<not> accepts (js ''abc'')"
proof -
  have a: "accepts (pages s) \<longleftrightarrow> PAGESET (strip_spaces (pages s))"
    by (rule accepts_iff)
  have yes: "handleSplit s =
      Posting (s\<lparr>split_loading := True, split_error := None, split_success := None\<rparr>) f (pages s)"
    if "accepts (pages s)"
    using that assms by (simp add: handleSplit_def accepts_def)
  have no: "\<exists>msg. handleSplit s = Stopped (s\<lparr>split_error := Some msg\<rparr>)"
    if "\<not> accepts (pages s)"
    using that assms by (auto simp add: handleSplit_def accepts_def)
  from a yes no accepts_ok accepts_no1 accepts_no2 show ?thesis
    by blast
qed

theorem handleSplit_validation_witness:
  "PAGESET (js ''1,3-5'')
   \<and> handleSplit split0 =
       Posting (split0\<lparr>split_loading := True, split_error := None, split_success := None\<rparr>)
         \<lparr>file_name = ''doc.pdf'', file_type = ''application/pdf''\<rparr> (js ''1, 3-5'')"
proof -
  have f: "selectedFile split0 = Some \<lparr>file_name = ''doc.pdf'', file_type = ''application/pdf''\<rparr>"
    by (simp add: split0_def)
  have st: "strip_spaces (js ''1, 3-5'') = js ''1,3-5''"
    by (simp add: strip_spaces_def js_def isSpace_def)
  have acc: "accepts (pages split0)"
    by (simp add: split0_def accepts_def js_def trim_def strip_spaces_def isSpace_def pageRegex_def
        Plus_def Opt_def Chr_def isDigit_def)
  have p: "pages split0 = js ''1, 3-5''"
    by (simp add: split0_def)
  from handleSplit_validation [OF f] acc show ?thesis
    by (simp add: p st)
qed

end
